theory Spec2Isabelle
  imports Main "HOL-Library.Sublist" "HOL-Library.AList" "HOL-Library.Word"
begin

section \<open>Python strings\<close>

text \<open>
  A Python \<open>str\<close> is modelled as a \<open>string\<close>, a list of characters; a \<open>char\<close> stands for
  the code point of the same number, so the model covers texts over the code points 0 to 255.
  \<open>str.isspace\<close>, which \<open>str.strip\<close> and the pattern class \<open>\s\<close> both use, holds on that range
  for the code points 9 to 13, 28 to 32, 133 and 160; \<open>\d\<close> holds for the ten ASCII digits.
\<close>

definition newline :: char where
  "newline = CHR 0x0A"

definition dquote :: char where
  "dquote = CHR 0x22"

definition is_space :: "char \<Rightarrow> bool" where
  "is_space c = (let n = (of_char c :: nat) in
     (9 \<le> n \<and> n \<le> 13) \<or> (28 \<le> n \<and> n \<le> 32) \<or> n = 133 \<or> n = 160)"

definition is_digit :: "char \<Rightarrow> bool" where
  "is_digit c = (let n = (of_char c :: nat) in 48 \<le> n \<and> n \<le> 57)"

text \<open>\<open>s.strip()\<close>: the text without its leading and trailing whitespace.\<close>

definition lstrip :: "string \<Rightarrow> string" where
  "lstrip s = dropWhile is_space s"

definition rstrip :: "string \<Rightarrow> string" where
  "rstrip s = rev (dropWhile is_space (rev s))"

definition strip :: "string \<Rightarrow> string" where
  "strip s = rstrip (lstrip s)"

text \<open>
  \<open>s.find(sub)\<close>: the lowest index at which \<open>sub\<close> starts in \<open>s\<close>, or \<open>-1\<close>.
  \<open>find_index\<close> is the search, \<open>py_find\<close> the integer Python returns.
\<close>

fun find_index :: "string \<Rightarrow> string \<Rightarrow> nat option" where
  "find_index sub [] = (if sub = [] then Some 0 else None)"
| "find_index sub (c # cs) =
     (if prefix sub (c # cs) then Some 0
      else (case find_index sub cs of None \<Rightarrow> None | Some i \<Rightarrow> Some (Suc i)))"

definition py_find :: "string \<Rightarrow> string \<Rightarrow> int" where
  "py_find s sub = (case find_index sub s of None \<Rightarrow> - 1 | Some i \<Rightarrow> int i)"

text \<open>
  Slices \<open>s[i:j]\<close> and \<open>s[i:]\<close> with Python's index rules: a negative index counts from
  the end, and every index is clamped to the text.
\<close>

definition slice_index :: "nat \<Rightarrow> int \<Rightarrow> nat" where
  "slice_index n i = (if i < 0 then nat (max 0 (i + int n)) else min (nat i) n)"

definition py_slice :: "string \<Rightarrow> int \<Rightarrow> int \<Rightarrow> string" where
  "py_slice s i j =
     (let a = slice_index (length s) i; b = slice_index (length s) j
      in take (b - a) (drop a s))"

definition py_slice_from :: "string \<Rightarrow> int \<Rightarrow> string" where
  "py_slice_from s i = drop (slice_index (length s) i) s"

text \<open>
  \<open>s.replace(old, new)\<close>: every occurrence of \<open>old\<close>, found from the left and without
  overlap, is replaced by \<open>new\<close>. For an empty \<open>old\<close> Python inserts \<open>new\<close> before every
  character and at the end.
\<close>

function py_replace :: "string \<Rightarrow> string \<Rightarrow> string \<Rightarrow> string" where
  "py_replace s old new =
     (if old = [] then new @ concat (map (\<lambda>c. c # new) s)
      else if prefix old s then new @ py_replace (drop (length old) s) old new
      else (case s of [] \<Rightarrow> [] | c # cs \<Rightarrow> c # py_replace cs old new))"
  by pat_completeness auto
termination
  by (relation "measure (\<lambda>(s, old, new). length s)") (auto simp: prefix_def)

declare py_replace.simps [simp del]

section \<open>The regular expression of the question and answer triples\<close>

text \<open>
  The pattern of \<open>parse_analysis\<close> is written with the constructs below. Python's \<open>re\<close> is a
  backtracking matcher: a greedy repetition tries the longest run first and gives characters
  back one at a time, a lazy one tries the shortest first, an optional part is tried present
  before absent, an alternation left before right, and a lookahead is tried once at the
  position where it stands. \<open>match_re\<close> is that matcher in continuation-passing style: the
  continuation is the rest of the pattern, and the first way to succeed is the match.
  The flag \<open>re.DOTALL\<close> makes \<open>.\<close> match every character, the newline too.
\<close>

datatype cclass = Space | Digit | AnyChar

fun in_class :: "cclass \<Rightarrow> char \<Rightarrow> bool" where
  "in_class Space c = is_space c"
| "in_class Digit c = is_digit c"
| "in_class AnyChar c = True"

datatype regex =
    Lit string
  | Star cclass
  | Plus cclass
  | LazyStar cclass
  | LazyPlus cclass
  | Opt regex
  | Seq regex regex
  | Alt regex regex
  | Group nat regex
  | Ahead regex
  | Eos

type_synonym captures = "nat \<Rightarrow> string option"

type_synonym matched = "string \<times> captures"

fun greedy_star :: "(char \<Rightarrow> bool) \<Rightarrow> string \<Rightarrow> (string \<Rightarrow> 'a option) \<Rightarrow> 'a option" where
  "greedy_star p [] k = k []"
| "greedy_star p (x # xs) k =
     (if p x then (case greedy_star p xs k of Some r \<Rightarrow> Some r | None \<Rightarrow> k (x # xs))
      else k (x # xs))"

fun lazy_star :: "(char \<Rightarrow> bool) \<Rightarrow> string \<Rightarrow> (string \<Rightarrow> 'a option) \<Rightarrow> 'a option" where
  "lazy_star p [] k = k []"
| "lazy_star p (x # xs) k =
     (case k (x # xs) of Some r \<Rightarrow> Some r
      | None \<Rightarrow> if p x then lazy_star p xs k else None)"

text \<open>
  \<open>match_re r s c k\<close>: match \<open>r\<close> at the start of the remaining text \<open>s\<close> with the groups
  \<open>c\<close> captured so far, then go on with \<open>k\<close>. \<open>$\<close> without \<open>re.MULTILINE\<close> holds at the end
  of the text and before a newline that ends the text.
\<close>

primrec match_re :: "regex \<Rightarrow> string \<Rightarrow> captures \<Rightarrow> (string \<Rightarrow> captures \<Rightarrow> matched option)
    \<Rightarrow> matched option" where
  "match_re (Lit l) s c k = (if prefix l s then k (drop (length l) s) c else None)"
| "match_re (Star cl) s c k = greedy_star (in_class cl) s (\<lambda>s'. k s' c)"
| "match_re (Plus cl) s c k =
     (case s of [] \<Rightarrow> None
      | x # xs \<Rightarrow> if in_class cl x then greedy_star (in_class cl) xs (\<lambda>s'. k s' c) else None)"
| "match_re (LazyStar cl) s c k = lazy_star (in_class cl) s (\<lambda>s'. k s' c)"
| "match_re (LazyPlus cl) s c k =
     (case s of [] \<Rightarrow> None
      | x # xs \<Rightarrow> if in_class cl x then lazy_star (in_class cl) xs (\<lambda>s'. k s' c) else None)"
| "match_re (Opt r) s c k =
     (case match_re r s c k of Some m \<Rightarrow> Some m | None \<Rightarrow> k s c)"
| "match_re (Seq r1 r2) s c k = match_re r1 s c (\<lambda>s' c'. match_re r2 s' c' k)"
| "match_re (Alt r1 r2) s c k =
     (case match_re r1 s c k of Some m \<Rightarrow> Some m | None \<Rightarrow> match_re r2 s c k)"
| "match_re (Group n r) s c k =
     match_re r s c (\<lambda>s' c'. k s' (c'(n \<mapsto> take (length s - length s') s)))"
| "match_re (Ahead r) s c k =
     (case match_re r s c (\<lambda>s' c'. Some (s', c')) of
        None \<Rightarrow> None
      | Some m \<Rightarrow> k s (snd m))"
| "match_re Eos s c k = (if s = [] \<or> s = [newline] then k s c else None)"

fun cat :: "regex list \<Rightarrow> regex" where
  "cat [] = Lit []"
| "cat [r] = r"
| "cat (r # rs) = Seq r (cat rs)"

text \<open>
  The pattern of the source, construct by construct:
  \<^verbatim>\<open>\*\*Question(?:\s*\d+)?\:\*\*\s*(.*?)\s*\*\*Answer:\*\*\s*(.*?)\s*\*\*Context:\*\*\s*\"?(.+?)\"?(?=\n\s*\*\*|$)\<close>
\<close>

definition qa_pattern :: regex where
  "qa_pattern = cat
     [Lit ''**Question'', Opt (Seq (Star Space) (Plus Digit)), Lit '':**'',
      Star Space, Group 1 (LazyStar AnyChar),
      Star Space, Lit ''**Answer:**'',
      Star Space, Group 2 (LazyStar AnyChar),
      Star Space, Lit ''**Context:**'',
      Star Space, Opt (Lit [dquote]), Group 3 (LazyPlus AnyChar), Opt (Lit [dquote]),
      Ahead (Alt (cat [Lit [newline], Star Space, Lit ''**'']) Eos)]"

text \<open>
  \<open>re.findall(pattern, s)\<close> for a pattern with three groups: the matches are searched from
  the left, each search starting where the last match ended, and every match gives the
  triple of its groups (an unset group gives the empty text). \<open>match_at\<close> is one attempt
  at one position; after a failed attempt the search moves on by one character. A match
  that consumes nothing would move the search on by one character as well; the pattern of
  the source has no such match (\<open>qa_pattern_consumes\<close> below).
\<close>

definition match_at :: "regex \<Rightarrow> string \<Rightarrow> matched option" where
  "match_at r s = match_re r s (\<lambda>n. None) (\<lambda>s' c'. Some (s', c'))"

definition group :: "captures \<Rightarrow> nat \<Rightarrow> string" where
  "group c n = (case c n of None \<Rightarrow> [] | Some g \<Rightarrow> g)"

function findall :: "regex \<Rightarrow> string \<Rightarrow> (string \<times> string \<times> string) list" where
  "findall r s =
     (case match_at r s of
        Some (s', c) \<Rightarrow>
          (group c 1, group c 2, group c 3) #
            (if length s' < length s then findall r s'
             else (case s of [] \<Rightarrow> [] | x # xs \<Rightarrow> findall r xs))
      | None \<Rightarrow> (case s of [] \<Rightarrow> [] | x # xs \<Rightarrow> findall r xs))"
  by pat_completeness auto
termination
  by (relation "measure (\<lambda>(r, s). length s)") auto

declare findall.simps [simp del]

section \<open>The parser\<close>

record qa_entry =
  question :: string
  answer :: string
  context_text :: string

record analysis =
  summary :: string
  qa :: "qa_entry list"

definition video_summary_marker :: string where
  "video_summary_marker = ''**Video Summary:**''"

definition summary_marker :: string where
  "summary_marker = ''**Summary:**''"

definition qa_marker :: string where
  "qa_marker = ''**Questions and Answers:**''"

text \<open>
  \<open>parse_analysis\<close>, lines 46 to 87. The result dictionary has the two fixed keys
  \<open>summary\<close> and \<open>qa\<close>, and every entry of \<open>qa\<close> the three keys \<open>question\<close>, \<open>answer\<close> and
  \<open>context\<close> (the field \<open>context_text\<close> here).
\<close>

definition qa_entry_of :: "string \<times> string \<times> string \<Rightarrow> qa_entry" where
  "qa_entry_of = (\<lambda>(q, a, c). \<lparr>question = strip q, answer = strip a, context_text = strip c\<rparr>)"

definition parse_analysis :: "string \<Rightarrow> analysis" where
  "parse_analysis raw =
     (let analysis_text = py_replace raw video_summary_marker summary_marker;
          index_summary = py_find analysis_text summary_marker;
          summary =
            (if index_summary \<noteq> - 1 then
               (let summary_start = index_summary + int (length summary_marker);
                    index_qa = py_find analysis_text qa_marker
                in if index_qa \<noteq> - 1
                   then strip (py_slice analysis_text summary_start index_qa)
                   else strip (py_slice_from analysis_text summary_start))
             else strip analysis_text);
          index_qa = py_find analysis_text qa_marker;
          qa_list =
            (if index_qa \<noteq> - 1 then
               (let qa_text = strip (py_slice_from analysis_text (index_qa + int (length qa_marker)))
                in map qa_entry_of (findall qa_pattern qa_text))
             else [])
      in \<lparr>summary = summary, qa = qa_list\<rparr>)"

section \<open>The batch loop\<close>

text \<open>
  The input file is a JSON list of objects. A JSON value is modelled as Python reads it;
  a float is kept as its 64 bits, since the loop only tests it for truth: a float is false
  when it is \<open>0.0\<close> or \<open>-0.0\<close>, that is, when its 63 low bits are zero. An object is an
  association list in insertion order; \<open>d.get(k)\<close> is \<open>dict_get\<close> (with \<open>None\<close> for a
  missing key) and \<open>d[k] = v\<close> is \<open>dict_set\<close>, which replaces the value of a key that is
  there and appends a new key at the end. The keys of an object that \<open>json.load\<close>
  returns are distinct.
\<close>

datatype json =
    JNull
  | JBool bool
  | JInt int
  | JFloat "64 word"
  | JStr string
  | JList "json list"
  | JDict "(string \<times> json) list"

type_synonym video_obj = "(string \<times> json) list"

fun truthy :: "json \<Rightarrow> bool" where
  "truthy JNull = False"
| "truthy (JBool b) = b"
| "truthy (JInt i) = (i \<noteq> 0)"
| "truthy (JFloat w) = (take_bit 63 w \<noteq> 0)"
| "truthy (JStr s) = (s \<noteq> [])"
| "truthy (JList xs) = (xs \<noteq> [])"
| "truthy (JDict kvs) = (kvs \<noteq> [])"

definition dict_get :: "video_obj \<Rightarrow> string \<Rightarrow> json" where
  "dict_get d k = (case map_of d k of None \<Rightarrow> JNull | Some v \<Rightarrow> v)"

definition dict_set :: "video_obj \<Rightarrow> string \<Rightarrow> json \<Rightarrow> video_obj" where
  "dict_set d k v = AList.update k v d"

text \<open>
  The collaborators raise instances of \<open>Exception\<close>, the class that the handlers of the
  source catch; \<open>str_of_exn\<close> is \<open>str(e)\<close>.
\<close>

datatype exn = Exception string

fun str_of_exn :: "exn \<Rightarrow> string" where
  "str_of_exn (Exception msg) = msg"

text \<open>
  The handle of an uploaded file: \<open>processed_video.name\<close> and
  \<open>processed_video.state.name\<close>.
\<close>

record remote_file =
  handle_name :: string
  state_name :: string

text \<open>
  The effects. Every call that leaves the program (the file system, the \<open>yt-dlp\<close>
  process, the remote service, the clock) is a function of an environment \<open>env\<close> on a
  world \<open>'w\<close> that the program cannot see; it returns its result, or the exception it
  raises, and the next world. The state of a run is the world and the list of the calls
  made so far, in order.
\<close>

datatype event =
    Mkdtemp
  | SubprocessRun "json list"
  | Listdir string
  | UploadFile string
  | Sleep
  | GetFile string
  | AgentRun string remote_file
  | OsRemove string


record 'w env =
  mkdtemp :: "'w \<Rightarrow> (exn + string) \<times> 'w"
  subprocess_run :: "json list \<Rightarrow> 'w \<Rightarrow> exn option \<times> 'w"
  listdir :: "string \<Rightarrow> 'w \<Rightarrow> (exn + string list) \<times> 'w"
  upload_file :: "string \<Rightarrow> 'w \<Rightarrow> (exn + remote_file) \<times> 'w"
  get_file :: "string \<Rightarrow> 'w \<Rightarrow> (exn + remote_file) \<times> 'w"
  agent_run :: "string \<Rightarrow> remote_file \<Rightarrow> 'w \<Rightarrow> (exn + string) \<times> 'w"
  os_remove :: "string \<Rightarrow> 'w \<Rightarrow> exn option \<times> 'w"

record 'w state =
  world :: 'w
  calls :: "event list"

definition call :: "event \<Rightarrow> ('w \<Rightarrow> 'a \<times> 'w) \<Rightarrow> 'w state \<Rightarrow> 'a \<times> 'w state" where
  "call e f st = (let (r, w) = f (world st) in (r, \<lparr>world = w, calls = calls st @ [e]\<rparr>))"

text \<open>\<open>download_youtube_video\<close>, lines 20 to 43; \<open>os.path.join\<close> is the POSIX one.\<close>

definition os_path_join :: "string \<Rightarrow> string \<Rightarrow> string" where
  "os_path_join a b =
     (if b \<noteq> [] \<and> hd b = CHR ''/'' then b
      else if a = [] \<or> last a = CHR ''/'' then a @ b
      else a @ ''/'' @ b)"

fun first_mp4 :: "string \<Rightarrow> string list \<Rightarrow> string option" where
  "first_mp4 temp_dir [] = None"
| "first_mp4 temp_dir (file_name # rest) =
     (if suffix ''.mp4'' file_name then Some (os_path_join temp_dir file_name)
      else first_mp4 temp_dir rest)"

definition download_youtube_video :: "'w env \<Rightarrow> json \<Rightarrow> 'w state \<Rightarrow> string option \<times> 'w state" where
  "download_youtube_video env url st =
     (case call Mkdtemp (mkdtemp env) st of
        (Inl e, st1) \<Rightarrow> (None, st1)
      | (Inr temp_dir, st1) \<Rightarrow>
          (let output_template = os_path_join temp_dir ''%(id)s.%(ext)s'';
               command = [JStr ''yt-dlp'', JStr ''-f'', JStr ''best[ext=mp4]'', JStr ''-o'',
                          JStr output_template, url]
           in case call (SubprocessRun command) (subprocess_run env command) st1 of
                (Some e, st2) \<Rightarrow> (None, st2)
              | (None, st2) \<Rightarrow>
                  (case call (Listdir temp_dir) (listdir env temp_dir) st2 of
                     (Inl e, st3) \<Rightarrow> (None, st3)
                   | (Inr names, st3) \<Rightarrow> (first_mp4 temp_dir names, st3))))"

text \<open>
  \<open>process_video\<close>, lines 90 to 117. The loop that waits for the remote service has no
  bound, so it is a partial function: \<open>None\<close> is a wait that never ends. The reply of the agent,
  \<open>response.content\<close>, is a text.
\<close>

partial_function (option) wait_processing ::
    "'w env \<Rightarrow> remote_file \<Rightarrow> 'w state \<Rightarrow> ((exn + remote_file) \<times> 'w state) option" where
  "wait_processing env processed_video st =
     (if state_name processed_video = ''PROCESSING'' then
        (case call Sleep (\<lambda>w. ((), w)) st of
           (u, st1) \<Rightarrow>
             (case call (GetFile (handle_name processed_video))
                     (get_file env (handle_name processed_video)) st1 of
                (Inl e, st2) \<Rightarrow> Some (Inl e, st2)
              | (Inr f, st2) \<Rightarrow> wait_processing env f st2))
      else Some (Inr processed_video, st))"

definition analysis_prompt :: string where
  "analysis_prompt = ''Please analyze the provided video and generate a summary followed by a set of questions and answers. Each question and answer must include a context section that points to the specific part of the summary it was derived from.''"

definition process_video ::
    "'w env \<Rightarrow> string \<Rightarrow> 'w state \<Rightarrow> ((exn + analysis) \<times> 'w state) option" where
  "process_video env video_file_path st =
     (case call (UploadFile video_file_path) (upload_file env video_file_path) st of
        (Inl e, st1) \<Rightarrow> Some (Inl e, st1)
      | (Inr uploaded, st1) \<Rightarrow>
          (case wait_processing env uploaded st1 of
             None \<Rightarrow> None
           | Some (Inl e, st2) \<Rightarrow> Some (Inl e, st2)
           | Some (Inr processed_video, st2) \<Rightarrow>
               (case call (AgentRun analysis_prompt processed_video)
                       (agent_run env analysis_prompt processed_video) st2 of
                  (Inl e, st3) \<Rightarrow> Some (Inl e, st3)
                | (Inr analysis_text, st3) \<Rightarrow> Some (Inr (parse_analysis analysis_text), st3))))"


text \<open>
  The body of the loop of \<open>main\<close>, lines 163 to 188, and the loop. \<open>analysis_json\<close> and
  \<open>error_json\<close> are the two dictionaries stored under the key \<open>analysis\<close>.
\<close>

definition qa_json :: "qa_entry \<Rightarrow> json" where
  "qa_json e = JDict [(''question'', JStr (question e)), (''answer'', JStr (answer e)),
                      (''context'', JStr (context_text e))]"

definition analysis_json :: "analysis \<Rightarrow> json" where
  "analysis_json a = JDict [(''summary'', JStr (summary a)), (''qa'', JList (map qa_json (qa a)))]"

definition error_json :: "string \<Rightarrow> json" where
  "error_json msg = JDict [(''error'', JStr msg)]"

definition main_step ::
    "'w env \<Rightarrow> video_obj \<Rightarrow> video_obj list \<times> 'w state \<Rightarrow> (video_obj list \<times> 'w state) option" where
  "main_step env video_obj acc =
     (case acc of (output_data, st) \<Rightarrow>
        (let url = dict_get video_obj ''url'' in
         if \<not> truthy url then Some (output_data, st)
         else
           (case download_youtube_video env url st of
              (video_file_path, st1) \<Rightarrow>
                (let failed =
                       Some (output_data @
                               [dict_set video_obj ''analysis'' (error_json ''Download failed'')],
                             st1)
                 in case video_file_path of
                      None \<Rightarrow> failed
                    | Some path \<Rightarrow>
                        if path = [] then failed
                        else
                          (case process_video env path st1 of
                             None \<Rightarrow> None
                           | Some (r, st2) \<Rightarrow>
                               (let analysis =
                                      (case r of Inr a \<Rightarrow> analysis_json a
                                       | Inl e \<Rightarrow> error_json (str_of_exn e));
                                    st3 = snd (call (OsRemove path) (os_remove env path) st2)
                                in Some (output_data @ [dict_set video_obj ''analysis'' analysis],
                                         st3)))))))"

fun main_loop ::
    "'w env \<Rightarrow> video_obj list \<Rightarrow> video_obj list \<times> 'w state \<Rightarrow> (video_obj list \<times> 'w state) option" where
  "main_loop env [] acc = Some acc"
| "main_loop env (video_obj # rest) acc =
     (case main_step env video_obj acc of
        None \<Rightarrow> None
      | Some acc' \<Rightarrow> main_loop env rest acc')"

section \<open>Vocabulary of the properties\<close>

text \<open>
  \<open>occurs sub s\<close> is Python's \<open>sub in s\<close>. \<open>absent m b\<close> says that no occurrence of the
  marker \<open>m\<close> starts inside \<open>b\<close> when \<open>b\<close> is followed by \<open>m\<close>: the marker after \<open>b\<close> is the
  first one. \<open>normalized\<close> is the first statement of \<open>parse_analysis\<close>.
\<close>

fun occurs :: "string \<Rightarrow> string \<Rightarrow> bool" where
  "occurs sub [] = (sub = [])"
| "occurs sub (c # cs) = (prefix sub (c # cs) \<or> occurs sub cs)"


definition normalized :: "string \<Rightarrow> string" where
  "normalized raw = py_replace raw video_summary_marker summary_marker"



text \<open>An environment for the examples: the world counts the uploads, and the second one is refused.\<close>

definition ready_file :: remote_file where
  "ready_file = \<lparr>handle_name = ''files/1'', state_name = ''ACTIVE''\<rparr>"

definition demo_env :: "nat env" where
  "demo_env = \<lparr>
     mkdtemp = (\<lambda>w. (Inr ''/tmp/d'', w)),
     subprocess_run = (\<lambda>cmd w.
        (if last cmd = JStr ''https://example.com/v1'' then Some (Exception ''exit status 1'')
         else None, w)),
     listdir = (\<lambda>d w. (Inr [''notes.txt'', ''v.mp4''], w)),
     upload_file = (\<lambda>p w.
        (if w = 1 then Inl (Exception ''upload refused'') else Inr ready_file, Suc w)),
     get_file = (\<lambda>n w. (Inr ready_file, w)),
     agent_run = (\<lambda>p f w. (Inr ''plain reply'', w)),
     os_remove = (\<lambda>p w. (None, w))\<rparr>"

definition video :: "string \<Rightarrow> video_obj" where
  "video u = [(''url'', JStr u), (''title'', JStr ''T'')]"

definition start :: "nat state" where
  "start = \<lparr>world = 0, calls = []\<rparr>"




















section \<open>Searching and replacing\<close>

lemma find_index_None: "find_index sub s = None \<longleftrightarrow> \<not> occurs sub s"
proof (induction s)
  case Nil
  show ?case by simp
next
  case (Cons c cs)
  then show ?case by (cases "find_index sub cs") simp_all
qed

lemma py_find_neg: "py_find s sub = - 1 \<longleftrightarrow> \<not> occurs sub s"
  using find_index_None [of sub s] by (cases "find_index sub s") (simp_all add: py_find_def)

lemma occurs_prefix: "prefix sub s \<Longrightarrow> occurs sub s"
  by (cases s) auto

lemma occurs_append_left: "occurs sub s \<Longrightarrow> occurs sub (u @ s)"
  by (induction u) auto

lemma occurs_Nil: "occurs [] s"
  by (cases s) simp_all

lemma occurs_append_right: "occurs sub s \<Longrightarrow> occurs sub (s @ u)"
proof (induction s)
  case Nil
  then show ?case by (simp add: occurs_Nil)
next
  case (Cons c cs)
  then show ?case using prefix_prefix [of sub "c # cs" u] by auto
qed

lemma replace_id: "old \<noteq> [] \<Longrightarrow> \<not> occurs old s \<Longrightarrow> py_replace s old new = s"
proof (induction s)
  case Nil
  then show ?case by (simp add: py_replace.simps)
next
  case (Cons c cs)
  then show ?case by (subst py_replace.simps) simp
qed

lemma replace_occurs:
  "old \<noteq> [] \<Longrightarrow> occurs old s \<Longrightarrow> occurs new (py_replace s old new)"
proof (induction s old new rule: py_replace.induct)
  case (1 s old new)
  show ?case
  proof (cases "prefix old s")
    case True
    with "1.prems" show ?thesis
      by (subst py_replace.simps) (simp add: occurs_prefix)
  next
    case False
    with "1.prems" obtain c cs where s: "s = c # cs" and "occurs old cs"
      by (cases s) auto
    with False "1.prems" "1.IH"(2) have "occurs new (py_replace cs old new)"
      by simp
    with False "1.prems" s show ?thesis
      by (subst py_replace.simps) simp
  qed
qed

lemma normalized_id: "\<not> occurs video_summary_marker raw \<Longrightarrow> normalized raw = raw"
  by (simp add: normalized_def replace_id video_summary_marker_def)

lemma normalized_no_summary:
  "\<not> occurs summary_marker (normalized raw) \<Longrightarrow> normalized raw = raw"
  using replace_occurs [of video_summary_marker raw summary_marker]
  by (auto simp: normalized_def intro: replace_id simp: video_summary_marker_def)

lemma prefix_long: "length m \<le> length x \<Longrightarrow> prefix m (x @ y) = prefix m x"
  by (auto simp: prefix_append)







section \<open>The parser on texts without markers\<close>

text \<open>
  C1. For every text, the empty one too, \<open>parse_analysis\<close> returns a record with a summary
  and a list of entries. The model has no branch that raises because the source has none
  on a \<open>str\<close>: \<open>find\<close> answers \<open>-1\<close>, a slice clamps its indices, and the search of
  \<open>findall\<close> ends, which is the termination proof of its definition.
\<close>

theorem parse_analysis_total:
  "(\<exists>s q. parse_analysis raw = \<lparr>summary = s, qa = q\<rparr>) \<and>
   parse_analysis [] = \<lparr>summary = [], qa = []\<rparr>"
proof
  show "\<exists>s q. parse_analysis raw = \<lparr>summary = s, qa = q\<rparr>"
    by (cases "parse_analysis raw") auto
  show "parse_analysis [] = \<lparr>summary = [], qa = []\<rparr>"
    by (simp add: parse_analysis_def py_replace.simps video_summary_marker_def py_find_def
        summary_marker_def qa_marker_def strip_def lstrip_def rstrip_def)
qed

text \<open>
  C6. A text that holds neither the summary marker nor the question and answer marker
  after the alias is rewritten is its own summary, trimmed, and has no entries.
\<close>

theorem no_markers:
  assumes "\<not> occurs summary_marker (normalized raw)"
    and "\<not> occurs qa_marker (normalized raw)"
  shows "parse_analysis raw = \<lparr>summary = strip raw, qa = []\<rparr>"
proof -
  have n: "py_replace raw video_summary_marker summary_marker = raw"
    using normalized_no_summary [OF assms(1)] by (simp add: normalized_def)
  from assms show ?thesis
    unfolding n normalized_def parse_analysis_def
    by (simp add: py_find_neg Let_def)
qed

theorem no_markers_witness:
  "\<not> occurs summary_marker (normalized ''  no markers here  '') \<and>
   \<not> occurs qa_marker (normalized ''  no markers here  '') \<and>
   parse_analysis ''  no markers here  '' = \<lparr>summary = ''no markers here'', qa = []\<rparr>"
proof -
  have 1: "\<not> occurs summary_marker (normalized ''  no markers here  '')" by code_simp
  have 2: "\<not> occurs qa_marker (normalized ''  no markers here  '')" by code_simp
  have 3: "strip ''  no markers here  '' = ''no markers here''" by code_simp
  from no_markers [OF 1 2] 1 2 3 show ?thesis by simp
qed



section \<open>The alias of the summary heading\<close>

text \<open>
  The alias and the canonical heading both begin and end with two asterisks, so putting
  one in the place of the other can complete or destroy an occurrence of the alias across
  its border. \<open>alias_border\<close> is the overlap of the two markers: a proper end of the alias
  that is also its beginning is a beginning of the canonical heading.
\<close>

lemma alias_border:
  assumes "u \<noteq> []" and "video_summary_marker = u @ us" and "prefix us video_summary_marker"
  shows "prefix us summary_marker"
proof -
  define n where "n = length u"
  have len: "length video_summary_marker = 18" by (simp add: video_summary_marker_def)
  have us: "us = drop n video_summary_marker"
    using assms(2) n_def by (metis append_eq_conv_conj)
  have "length u + length us = 18" using assms(2) len by (metis length_append)
  moreover have "1 \<le> n" using assms(1) n_def by (cases u) simp_all
  ultimately have "1 \<le> n" "n \<le> 18" using n_def by simp_all
  then have "n \<in> set [1..<19]" by simp
  moreover have "\<forall>n\<in>set [1..<19]. prefix (drop n video_summary_marker) video_summary_marker \<longrightarrow>
      prefix (drop n video_summary_marker) summary_marker"
    by code_simp
  ultimately show ?thesis
    using assms(3) unfolding us by blast
qed

lemma replace_alias:
  assumes "\<not> occurs video_summary_marker (a @ summary_marker @ b)"
  shows "py_replace (a @ video_summary_marker @ b) video_summary_marker summary_marker =
         a @ summary_marker @ b"
  using assms
proof (induction a)
  case Nil
  have "\<not> occurs video_summary_marker b"
    using Nil occurs_append_left [of video_summary_marker b summary_marker] by auto
  then have "py_replace b video_summary_marker summary_marker = b"
    by (simp add: replace_id video_summary_marker_def)
  then show ?case
    by (subst py_replace.simps) (simp add: video_summary_marker_def)
next
  case (Cons c a)
  have no: "\<not> prefix video_summary_marker (c # a @ summary_marker @ b)"
    and rest: "\<not> occurs video_summary_marker (a @ summary_marker @ b)"
    using Cons.prems by auto
  have "\<not> prefix video_summary_marker ((c # a) @ video_summary_marker @ b)"
  proof
    assume p: "prefix video_summary_marker ((c # a) @ video_summary_marker @ b)"
    then have "prefix video_summary_marker (c # a) \<or>
        (\<exists>us. video_summary_marker = (c # a) @ us \<and> prefix us (video_summary_marker @ b))"
      by (simp only: prefix_append)
    then consider "prefix video_summary_marker (c # a)"
      | us where "video_summary_marker = (c # a) @ us" "prefix us (video_summary_marker @ b)"
      by blast
    then show False
    proof cases
      case 1
      then have "prefix video_summary_marker ((c # a) @ summary_marker @ b)"
        using prefix_prefix by blast
      with no show False by simp
    next
      case 2
      have "length us \<le> length video_summary_marker" using 2(1)
        by (metis le_add2 length_append)
      with 2(2) have "prefix us video_summary_marker"
        by (metis prefix_long)
      with alias_border [OF _ 2(1)] have "prefix us summary_marker" by simp
      then have "prefix ((c # a) @ us) ((c # a) @ summary_marker @ b)"
        using prefix_prefix by (simp del: append_Cons) 
      with 2(1) no show False by simp
    qed
  qed
  moreover have "video_summary_marker \<noteq> []" by (simp add: video_summary_marker_def)
  ultimately have "py_replace ((c # a) @ video_summary_marker @ b) video_summary_marker
      summary_marker = c # py_replace (a @ video_summary_marker @ b) video_summary_marker
      summary_marker"
    by (subst py_replace.simps) simp
  with Cons.IH [OF rest] show ?case by simp
qed

text \<open>
  C7, as stated, fails: in \<open>**Video Summary:**Video Summary:**\<close> the alias heading is
  rewritten and the summary is \<open>Video Summary:**\<close>; in the same text with the canonical
  heading, \<open>**Summary:**Video Summary:**\<close>, the end of the heading and the text after it
  form the alias, which is rewritten, and the summary is \<open>Summary:**\<close>.
\<close>

theorem alias_counterexample:
  "summary (parse_analysis ([] @ video_summary_marker @ ''Video Summary:**'')) \<noteq>
   summary (parse_analysis ([] @ summary_marker @ ''Video Summary:**''))"
  by code_simp

text \<open>
  C7, amended. When the text with the canonical heading holds no occurrence of the alias,
  the text with the alias heading in its place has the same parse: the same summary and
  the same entries.
\<close>

theorem alias_same_result:
  assumes "\<not> occurs video_summary_marker (a @ summary_marker @ b)"
  shows "parse_analysis (a @ video_summary_marker @ b) = parse_analysis (a @ summary_marker @ b)"
proof -
  have "py_replace (a @ summary_marker @ b) video_summary_marker summary_marker =
      a @ summary_marker @ b"
    using assms by (simp add: replace_id video_summary_marker_def)
  with replace_alias [OF assms] show ?thesis
    by (simp add: parse_analysis_def)
qed

theorem alias_same_result_witness:
  "\<not> occurs video_summary_marker (''Intro. '' @ summary_marker @ '' The film.'') \<and>
   parse_analysis (''Intro. '' @ video_summary_marker @ '' The film.'') =
   parse_analysis (''Intro. '' @ summary_marker @ '' The film.'')"
proof -
  have 1: "\<not> occurs video_summary_marker (''Intro. '' @ summary_marker @ '' The film.'')"
    by code_simp
  from alias_same_result [OF 1] 1 show ?thesis by simp
qed

section \<open>The matcher on a well-formed triple\<close>









subsection \<open>A match ends inside the text\<close>

text \<open>
  What the matcher hands to the rest of the pattern is an end piece of the text it was
  given, so a match of the pattern of the source, which begins with a literal, always
  consumes text, and \<open>findall\<close> never meets an empty match.
\<close>

lemma greedy_star_suffix:
  "greedy_star p s k = Some m \<Longrightarrow> \<exists>s'. suffix s' s \<and> k s' = Some m"
proof (induction s)
  case Nil
  then show ?case by auto
next
  case (Cons x xs)
  show ?case
  proof (cases "p x \<and> greedy_star p xs k \<noteq> None")
    case True
    with Cons.prems have "greedy_star p xs k = Some m" by auto
    from Cons.IH [OF this] show ?thesis by (auto intro: suffix_ConsI)
  next
    case False
    with Cons.prems have "k (x # xs) = Some m" by (auto split: if_splits)
    then show ?thesis by auto
  qed
qed

lemma lazy_star_suffix:
  "lazy_star p s k = Some m \<Longrightarrow> \<exists>s'. suffix s' s \<and> k s' = Some m"
proof (induction s)
  case Nil
  then show ?case by auto
next
  case (Cons x xs)
  show ?case
  proof (cases "k (x # xs)")
    case None
    with Cons.prems have "lazy_star p xs k = Some m" by (auto split: if_splits)
    from Cons.IH [OF this] show ?thesis by (auto intro: suffix_ConsI)
  next
    case (Some a)
    with Cons.prems show ?thesis by auto
  qed
qed

lemma match_re_suffix:
  "match_re r s c k = Some m \<Longrightarrow> \<exists>s' c'. suffix s' s \<and> k s' c' = Some m"
proof (induction r arbitrary: s c k m)
  case (Lit l)
  then show ?case by (auto split: if_splits intro: suffix_drop)
next
  case (Star cl)
  then show ?case using greedy_star_suffix [of "in_class cl" s "\<lambda>s'. k s' c" m] by auto
next
  case (Plus cl)
  then obtain x xs where s: "s = x # xs"
    and g: "greedy_star (in_class cl) xs (\<lambda>s'. k s' c) = Some m"
    by (auto split: list.splits if_splits)
  from greedy_star_suffix [OF g] s show ?case by (auto intro: suffix_ConsI)
next
  case (LazyStar cl)
  then show ?case using lazy_star_suffix [of "in_class cl" s "\<lambda>s'. k s' c" m] by auto
next
  case (LazyPlus cl)
  then obtain x xs where s: "s = x # xs"
    and g: "lazy_star (in_class cl) xs (\<lambda>s'. k s' c) = Some m"
    by (auto split: list.splits if_splits)
  from lazy_star_suffix [OF g] s show ?case by (auto intro: suffix_ConsI)
next
  case (Opt r)
  show ?case
  proof (cases "match_re r s c k")
    case None
    with Opt.prems show ?thesis by auto
  next
    case (Some a)
    with Opt.prems have "match_re r s c k = Some m" by simp
    from Opt.IH [OF this] show ?thesis .
  qed
next
  case (Seq r1 r2)
  from Seq.prems have "match_re r1 s c (\<lambda>s' c'. match_re r2 s' c' k) = Some m" by simp
  from Seq.IH(1) [OF this] obtain s1 c1 where
    1: "suffix s1 s" "match_re r2 s1 c1 k = Some m" by blast
  from Seq.IH(2) [OF 1(2)] obtain s2 c2 where "suffix s2 s1" "k s2 c2 = Some m" by blast
  with 1(1) show ?case using suffix_order.trans by blast
next
  case (Alt r1 r2)
  show ?case
  proof (cases "match_re r1 s c k")
    case None
    with Alt.prems have "match_re r2 s c k = Some m" by simp
    from Alt.IH(2) [OF this] show ?thesis .
  next
    case (Some a)
    with Alt.prems have "match_re r1 s c k = Some m" by simp
    from Alt.IH(1) [OF this] show ?thesis .
  qed
next
  case (Group n r)
  from Group.prems have
    "match_re r s c (\<lambda>s' c'. k s' (c'(n \<mapsto> take (length s - length s') s))) = Some m"
    by simp
  from Group.IH [OF this] show ?case by blast
next
  case (Ahead r)
  then show ?case by (auto split: option.splits)
next
  case Eos
  then show ?case by (auto split: if_splits)
qed

lemma qa_pattern_consumes:
  assumes "match_at qa_pattern s = Some (s', c)"
  shows "length s' < length s"
proof -
  obtain rest where q: "qa_pattern = Seq (Lit ''**Question'') rest"
    by (simp add: qa_pattern_def)
  from assms have "match_re (Lit ''**Question'') s (\<lambda>n. None)
      (\<lambda>s1 c1. match_re rest s1 c1 (\<lambda>s2 c2. Some (s2, c2))) = Some (s', c)"
    by (simp add: match_at_def q)
  then have p: "prefix ''**Question'' s"
    and r: "match_re rest (drop (length ''**Question'') s) (\<lambda>n. None) (\<lambda>s2 c2. Some (s2, c2))
      = Some (s', c)"
    by (auto split: if_splits)
  from match_re_suffix [OF r] have "suffix s' (drop (length ''**Question'') s)" by auto
  then have "length s' \<le> length s - 10" using suffix_length_le by fastforce
  moreover from p have "10 \<le> length s" using prefix_length_le by fastforce
  ultimately show ?thesis by simp
qed

subsection \<open>The lookahead and the context body\<close>










subsection \<open>The question and answer bodies\<close>








subsection \<open>The header and the whole triple\<close>






subsection \<open>The search over a list of triples\<close>










subsection \<open>Trimming\<close>


lemma lstrip_id: "s \<noteq> [] \<Longrightarrow> \<not> is_space (hd s) \<Longrightarrow> lstrip s = s"
  by (cases s) (simp_all add: lstrip_def)













section \<open>The parser on well-formed replies\<close>












section \<open>The batch loop: failures stay with their item\<close>

lemma main_loop_append:
  "main_loop env (xs @ ys) acc = Option.bind (main_loop env xs acc) (main_loop env ys)"
  by (induction xs arbitrary: acc) (auto split: option.splits)

lemma main_step_prefix:
  "main_step env v (out, st) = map_option (\<lambda>(o', s). (out @ o', s)) (main_step env v ([], st))"
  by (auto simp: main_step_def Let_def split: option.splits prod.splits sum.splits)

lemma main_loop_prefix:
  "main_loop env vs (out, st) = map_option (\<lambda>(o', s). (out @ o', s)) (main_loop env vs ([], st))"
proof (induction vs arbitrary: out st)
  case Nil
  show ?case by simp
next
  case (Cons v vs)
  show ?case
  proof (cases "main_step env v ([], st)")
    case None
    then show ?thesis using main_step_prefix [of env v out st] by simp
  next
    case (Some a)
    obtain o1 s1 where a: "a = (o1, s1)" by (cases a)
    have 1: "main_step env v (out, st) = Some (out @ o1, s1)"
      using main_step_prefix [of env v out st] Some a by simp
    show ?thesis
      using Some a 1 Cons [of "out @ o1" s1] Cons [of o1 s1]
      by (cases "main_loop env vs ([], s1)") auto
  qed
qed







text \<open>
  The loop stops for lack of an answer only where a wait for the remote service never
  ends: when every wait ends, the loop returns. A file that is not \<open>PROCESSING\<close> is not
  waited for.
\<close>

lemma main_step_returns:
  assumes "\<And>f st. wait_processing env f st \<noteq> None"
  shows "main_step env v acc \<noteq> None"
proof -
  have "process_video env p st \<noteq> None" for p st
  proof (cases "call (UploadFile p) (upload_file env p) st")
    case (Pair r st1)
    show ?thesis
    proof (cases r)
      case (Inl e)
      with Pair show ?thesis by (simp add: process_video_def)
    next
      case (Inr f)
      from assms [of f st1] obtain r2 st2 where "wait_processing env f st1 = Some (r2, st2)"
        by auto
      with Pair Inr show ?thesis
        by (simp add: process_video_def split: prod.splits sum.splits)
    qed
  qed
  then have "\<forall>p st. \<exists>r. process_video env p st = Some r" by auto
  then show ?thesis
    by (auto simp: main_step_def Let_def split: prod.splits option.splits) (metis option.distinct(1))
qed

lemma main_loop_returns:
  assumes "\<And>f st. wait_processing env f st \<noteq> None"
  shows "main_loop env vs acc \<noteq> None"
proof (induction vs arbitrary: acc)
  case Nil
  show ?case by simp
next
  case (Cons v vs)
  from main_step_returns [OF assms, of v acc] obtain acc' where
    "main_step env v acc = Some acc'" by auto
  with Cons [of acc'] show ?case by simp
qed

lemma wait_ready:
  "state_name f \<noteq> ''PROCESSING'' \<Longrightarrow> wait_processing env f st = Some (Inr f, st)"
  by (subst wait_processing.simps) simp

lemma parse_plain: "parse_analysis ''plain reply'' = \<lparr>summary = ''plain reply'', qa = []\<rparr>"
  by code_simp

lemmas run_simps = main_step_def download_youtube_video_def demo_env_def call_def
  os_path_join_def Let_def video_def dict_get_def start_def process_video_def
  wait_processing.simps ready_file_def parse_plain analysis_json_def error_json_def
  dict_set_def suffix_def





text \<open>
  C2. When the remote processing of a descriptor raises, the run of the whole batch is the
  run of the descriptors after it, started in the state the failed one left, with the
  output of the descriptors before it and the error entry of the failed one in front:
  the earlier results are kept, the later descriptors are processed, the order is the
  input's.
\<close>

theorem failure_isolated:
  assumes before: "main_loop env xs ([], st0) = Some (out1, st1)"
    and url: "truthy (dict_get x ''url'')"
    and dl: "download_youtube_video env (dict_get x ''url'') st1 = (Some path, st2)"
    and path: "path \<noteq> []"
    and raised: "process_video env path st2 = Some (Inl (Exception msg), st3)"
  shows "main_loop env (xs @ x # ys) ([], st0) =
           map_option
             (\<lambda>(out3, st5).
                 (out1 @ [dict_set x ''analysis'' (JDict [(''error'', JStr msg)])] @ out3, st5))
             (main_loop env ys ([], snd (call (OsRemove path) (os_remove env path) st3)))"
proof -
  let ?st4 = "snd (call (OsRemove path) (os_remove env path) st3)"
  let ?e = "dict_set x ''analysis'' (JDict [(''error'', JStr msg)])"
  have step: "main_step env x (out1, st1) = Some (out1 @ [?e], ?st4)"
    using url dl path raised by (simp add: main_step_def error_json_def Let_def)
  have "main_loop env (xs @ x # ys) ([], st0) = main_loop env ys (out1 @ [?e], ?st4)"
    using before step by (simp add: main_loop_append)
  also have "\<dots> = map_option (\<lambda>(o', s). ((out1 @ [?e]) @ o', s)) (main_loop env ys ([], ?st4))"
    by (rule main_loop_prefix)
  finally show ?thesis by simp
qed

theorem failure_isolated_witness:
  "map_option fst (main_loop demo_env ([video ''a''] @ video ''b'' # [video ''c'']) ([], start)) =
     Some [[(''url'', JStr ''a''), (''title'', JStr ''T''),
            (''analysis'', JDict [(''summary'', JStr ''plain reply''), (''qa'', JList [])])],
           [(''url'', JStr ''b''), (''title'', JStr ''T''),
            (''analysis'', JDict [(''error'', JStr ''upload refused'')])],
           [(''url'', JStr ''c''), (''title'', JStr ''T''),
            (''analysis'', JDict [(''summary'', JStr ''plain reply''), (''qa'', JList [])])]]"
proof -
  define st1 where "st1 = snd (the (main_loop demo_env [video ''a''] ([], start)))"
  define out1 where "out1 = fst (the (main_loop demo_env [video ''a''] ([], start)))"
  define st2 where "st2 = snd (download_youtube_video demo_env (dict_get (video ''b'') ''url'') st1)"
  define st3 where "st3 = snd (the (process_video demo_env ''/tmp/d/v.mp4'' st2))"
  have 1: "main_loop demo_env [video ''a''] ([], start) = Some (out1, st1)"
    unfolding out1_def st1_def by (simp add: run_simps)
  have 2: "truthy (dict_get (video ''b'') ''url'')"
    by (simp add: video_def dict_get_def)
  have w1: "world st1 = 1" unfolding st1_def by (simp add: run_simps)
  have 3: "download_youtube_video demo_env (dict_get (video ''b'') ''url'') st1 =
      (Some ''/tmp/d/v.mp4'', st2)"
    unfolding st2_def by (simp add: run_simps)
  have w2: "world st2 = 1" unfolding st2_def using w1 by (simp add: run_simps)
  have 4: "''/tmp/d/v.mp4'' \<noteq> []" by simp
  have 5: "process_video demo_env ''/tmp/d/v.mp4'' st2 = Some (Inl (Exception ''upload refused''), st3)"
    unfolding st3_def using w2 by (simp add: run_simps)
  have w3: "world st3 = 2" unfolding st3_def using w2 by (simp add: run_simps)
  have o1: "out1 = [[(''url'', JStr ''a''), (''title'', JStr ''T''),
            (''analysis'', JDict [(''summary'', JStr ''plain reply''), (''qa'', JList [])])]]"
    unfolding out1_def by (simp add: run_simps)
  show ?thesis
    unfolding failure_isolated [OF 1 2 3 4 5, of "[video ''c'']"] o1
    using w3 by (simp add: run_simps option.map_comp comp_def split_def)
qed

end
